theory Spec2Isabelle
  imports Main "HOL-Library.Sublist"
begin

section \<open>JavaScript strings\<close>

text \<open>
  A JavaScript string is a sequence of UTF-16 code units. A code unit is modelled by its
  number, so that the line terminators U+2028 and U+2029 and the Unicode spaces, which the
  regular expressions of \<^verbatim>\<open>sourceMap.ts\<close> distinguish, are all present. \<open>js\<close> embeds an
  ASCII literal.
\<close>

type_synonym jsstring = "nat list"

definition js :: "string \<Rightarrow> jsstring" where
  "js s = map of_char s"

text \<open>ECMAScript \<^emph>\<open>LineTerminator\<close>: LF, CR, LS, PS.\<close>

definition isLineTerminator :: "nat \<Rightarrow> bool" where
  "isLineTerminator c \<longleftrightarrow> c = 10 \<or> c = 13 \<or> c = 8232 \<or> c = 8233"

text \<open>
  The class \<^verbatim>\<open>\s\<close>: ECMAScript \<^emph>\<open>WhiteSpace\<close> (TAB, VT, FF, U+FEFF and the category Zs)
  together with the line terminators.
\<close>

definition isWhiteSpace :: "nat \<Rightarrow> bool" where
  "isWhiteSpace c \<longleftrightarrow>
     c = 9 \<or> c = 11 \<or> c = 12 \<or> c = 32 \<or> c = 160 \<or> c = 5760 \<or> (8192 \<le> c \<and> c \<le> 8202)
     \<or> c = 8239 \<or> c = 8287 \<or> c = 12288 \<or> c = 65279 \<or> isLineTerminator c"

text \<open>JavaScript truthiness of a string, and of an optional string argument.\<close>

definition truthy :: "jsstring option \<Rightarrow> bool" where
  "truthy a = (case a of None \<Rightarrow> False | Some s \<Rightarrow> s \<noteq> [])"

section \<open>Regular expressions\<close>

text \<open>
  The fragment of ECMAScript regular expressions that the three patterns of the class and
  \<^verbatim>\<open>IS_REMOTE\<close> use: single-character classes, quantifiers on a class (greedy or lazy),
  capturing groups, alternatives, negative lookahead, and the assertions \<^verbatim>\<open>^\<close> and \<^verbatim>\<open>$\<close>.
\<close>

datatype cls =
    Lit nat
  | Ranges "(nat \<times> nat) list"
  | Dot
  | Space

datatype re =
    Chr cls
  | Rep cls nat "nat option" bool
  | Grp nat "re list"
  | Alt "re list" "re list"
  | NegLook "re list"
  | Caret
  | Dollar

text \<open>
  A matcher state: the input to the left of the current position, the input from it on, and the
  captures made so far.
\<close>

record mstate =
  seen :: jsstring
  rest :: jsstring
  caps :: "nat \<Rightarrow> jsstring option"

fun cls_match :: "cls \<Rightarrow> nat \<Rightarrow> bool" where
  "cls_match (Lit a) c = (c = a)"
| "cls_match (Ranges rs) c = list_ex (\<lambda>(lo, hi). lo \<le> c \<and> c \<le> hi) rs"
| "cls_match Dot c = (\<not> isLineTerminator c)"
| "cls_match Space c = isWhiteSpace c"

definition advance :: "nat \<Rightarrow> mstate \<Rightarrow> mstate" where
  "advance k x = x\<lparr>seen := seen x @ take k (rest x), rest := drop k (rest x)\<rparr>"

text \<open>
  The numbers of characters a quantified class may consume, in the order backtracking tries
  them: a greedy quantifier the longest first, a lazy one the shortest first.
\<close>

definition rep_counts :: "cls \<Rightarrow> nat \<Rightarrow> nat option \<Rightarrow> bool \<Rightarrow> jsstring \<Rightarrow> nat list" where
  "rep_counts cl lo hi greedy s =
     (let run = length (takeWhile (cls_match cl) s);
          up = (case hi of None \<Rightarrow> run | Some h \<Rightarrow> min h run);
          ks = [lo ..< Suc up]
      in if greedy then rev ks else ks)"

text \<open>
  Backtracking as a list of successes: \<open>ms ml rs x\<close> lists the states in which the sequence
  \<open>rs\<close> can end when started in \<open>x\<close>, in the order in which a backtracking matcher finds
  them. The match ECMAScript reports is the first. \<open>ml\<close> is the flag \<^verbatim>\<open>m\<close>.
\<close>

fun m :: "bool \<Rightarrow> re \<Rightarrow> mstate \<Rightarrow> mstate list"
and ms :: "bool \<Rightarrow> re list \<Rightarrow> mstate \<Rightarrow> mstate list" where
  "m ml (Chr cl) x =
     (case rest x of [] \<Rightarrow> [] | c # cs \<Rightarrow> if cls_match cl c then [advance 1 x] else [])"
| "m ml (Rep cl lo hi g) x = map (\<lambda>k. advance k x) (rep_counts cl lo hi g (rest x))"
| "m ml (Grp n rs) x =
     map (\<lambda>y. y\<lparr>caps := (caps y)(n \<mapsto> drop (length (seen x)) (seen y))\<rparr>) (ms ml rs x)"
| "m ml (Alt a b) x = ms ml a x @ ms ml b x"
| "m ml (NegLook rs) x = (if ms ml rs x = [] then [x] else [])"
| "m ml Caret x =
     (if seen x = [] \<or> (ml \<and> isLineTerminator (last (seen x))) then [x] else [])"
| "m ml Dollar x =
     (if rest x = [] \<or> (ml \<and> isLineTerminator (hd (rest x))) then [x] else [])"
| "ms ml [] x = [x]"
| "ms ml (r # rs) x = concat (map (ms ml rs) (m ml r x))"

text \<open>A literal string inside a pattern.\<close>

definition lits :: "jsstring \<Rightarrow> re list" where
  "lits w = map (\<lambda>c. Chr (Lit c)) w"

text \<open>A regular expression: its pattern, the number of its capturing groups, its flag \<^verbatim>\<open>m\<close>.\<close>

record regexp =
  pattern :: "re list"
  groups :: nat
  multiline :: bool

text \<open>
  \<^verbatim>\<open>RegExpBuiltinExec\<close> from a given position: the leftmost position at which the pattern
  matches, with the first match there. The result is the text to the left of the match and the final
  matcher state.
\<close>

fun regexp_exec :: "regexp \<Rightarrow> jsstring \<Rightarrow> jsstring \<Rightarrow> (jsstring \<times> mstate) option" where
  "regexp_exec r pre s =
     (case ms (multiline r) (pattern r) \<lparr>seen = pre, rest = s, caps = Map.empty\<rparr> of
        y # _ \<Rightarrow> Some (pre, y)
      | [] \<Rightarrow> (case s of [] \<Rightarrow> None | c # cs \<Rightarrow> regexp_exec r (pre @ [c]) cs))"

declare regexp_exec.simps [simp del]

text \<open>The matched text of an exec result.\<close>

definition matched :: "jsstring \<times> mstate \<Rightarrow> jsstring" where
  "matched res = drop (length (fst res)) (seen (snd res))"

text \<open>\<^verbatim>\<open>RegExp.prototype.test\<close> of a regular expression without the flag \<^verbatim>\<open>g\<close>.\<close>

definition regexp_test :: "regexp \<Rightarrow> jsstring \<Rightarrow> bool" where
  "regexp_test r s = (regexp_exec r [] s \<noteq> None)"

section \<open>The patterns of \<^verbatim>\<open>sourceMap.ts\<close>\<close>

text \<open>\<^verbatim>\<open>const IS_REMOTE = /^[a-zA-z]{2,}:\/\//\<close> (the second range ends at the lower-case z).\<close>

definition IS_REMOTE :: regexp where
  "IS_REMOTE =
     \<lparr>pattern = [Caret, Rep (Ranges [(97, 122), (65, 122)]) 2 None True] @ lits (js ''://''),
      groups = 0, multiline = False\<rparr>"

text \<open>
  \<^verbatim>\<open>/\/\/(#|@) sourceMappingURL=((?!data:).+?)\s*$/m\<close>, the pattern of both
  \<^verbatim>\<open>SourceMapURLRegex\<close> and \<^verbatim>\<open>SourceMapURLGlobalRegex\<close>; the flag \<^verbatim>\<open>g\<close> of the
  latter selects the behaviour of \<^verbatim>\<open>String.prototype.match\<close>, modelled by \<open>match_global\<close>.
\<close>

definition SourceMapURLRegex :: regexp where
  "SourceMapURLRegex =
     \<lparr>pattern = lits (js ''//'') @ [Grp 1 [Alt [Chr (Lit 35)] [Chr (Lit 64)]]]
        @ lits (js '' sourceMappingURL='')
        @ [Grp 2 (NegLook (lits (js ''data:'')) # [Rep Dot 1 None False]),
           Rep Space 0 None True, Dollar],
      groups = 2, multiline = True\<rparr>"

text \<open>\<^verbatim>\<open>/^\/\/[#@] ?sourceURL=(.+)$/m\<close>\<close>

definition SourceURLRegex :: regexp where
  "SourceURLRegex =
     \<lparr>pattern = Caret # lits (js ''//'') @ [Chr (Ranges [(35, 35), (64, 64)]), Rep (Lit 32) 0 (Some 1) True]
        @ lits (js ''sourceURL='') @ [Grp 1 [Rep Dot 1 None True], Dollar],
      groups = 1, multiline = True\<rparr>"

section \<open>String methods\<close>

text \<open>
  \<^verbatim>\<open>GetSubstitution\<close> of ECMAScript: the expansion of the \<^verbatim>\<open>$\<close> patterns of a replacement
  string. \<open>mt\<close> is the matched text, \<open>bf\<close> and \<open>af\<close> the text to its left and right, \<open>cs\<close>
  the captures (\<open>None\<close> for one that did not take part). There are no named groups, so
  \<^verbatim>\<open>$<\<close> stands for itself.
\<close>

definition is_digit :: "nat \<Rightarrow> bool" where
  "is_digit c \<longleftrightarrow> 48 \<le> c \<and> c \<le> 57"

definition capture_text :: "jsstring option list \<Rightarrow> nat \<Rightarrow> jsstring" where
  "capture_text cs i = (case cs ! (i - 1) of None \<Rightarrow> [] | Some t \<Rightarrow> t)"

fun GetSubstitution ::
  "jsstring \<Rightarrow> jsstring \<Rightarrow> jsstring \<Rightarrow> jsstring option list \<Rightarrow> jsstring \<Rightarrow> jsstring" where
  "GetSubstitution mt bf af cs [] = []"
| "GetSubstitution mt bf af cs [c] = [c]"
| "GetSubstitution mt bf af cs (c # d # t) =
     (if c \<noteq> 36 then c # GetSubstitution mt bf af cs (d # t)
      else if d = 36 then 36 # GetSubstitution mt bf af cs t
      else if d = 96 then bf @ GetSubstitution mt bf af cs t
      else if d = 38 then mt @ GetSubstitution mt bf af cs t
      else if d = 39 then af @ GetSubstitution mt bf af cs t
      else if is_digit d then
        (case t of
           e # t' \<Rightarrow>
             if is_digit e \<and> 10 * (d - 48) + (e - 48) \<le> length cs then
               (if 1 \<le> 10 * (d - 48) + (e - 48)
                then capture_text cs (10 * (d - 48) + (e - 48)) @ GetSubstitution mt bf af cs t'
                else 36 # d # e # GetSubstitution mt bf af cs t')
             else if 1 \<le> d - 48 \<and> d - 48 \<le> length cs
               then capture_text cs (d - 48) @ GetSubstitution mt bf af cs t
               else 36 # d # GetSubstitution mt bf af cs t
         | [] \<Rightarrow>
             if 1 \<le> d - 48 \<and> d - 48 \<le> length cs
               then capture_text cs (d - 48)
               else [36, d])
      else 36 # GetSubstitution mt bf af cs (d # t))"

text \<open>
  The first occurrence of \<open>w\<close> in \<open>s\<close>: the text to its left and the text to its right
  (\<^verbatim>\<open>StringIndexOf\<close> from position 0).
\<close>

fun first_occurrence :: "jsstring \<Rightarrow> jsstring \<Rightarrow> (jsstring \<times> jsstring) option" where
  "first_occurrence w [] = (if w = [] then Some ([], []) else None)"
| "first_occurrence w (c # cs) =
     (if prefix w (c # cs) then Some ([], drop (length w) (c # cs))
      else map_option (\<lambda>(b, a). (c # b, a)) (first_occurrence w cs))"

text \<open>\<^verbatim>\<open>String.prototype.replace\<close> with a string to search for and a replacement string.\<close>

definition replace_string :: "jsstring \<Rightarrow> jsstring \<Rightarrow> jsstring \<Rightarrow> jsstring" where
  "replace_string s w repl =
     (case first_occurrence w s of
        None \<Rightarrow> s
      | Some (bf, af) \<Rightarrow> bf @ GetSubstitution w bf af [] repl @ af)"

text \<open>
  \<^verbatim>\<open>String.prototype.replace\<close> with a regular expression without the flag \<^verbatim>\<open>g\<close> and a
  replacement string: the first match is replaced.
\<close>

definition replace_regexp :: "jsstring \<Rightarrow> regexp \<Rightarrow> jsstring \<Rightarrow> jsstring" where
  "replace_regexp s r repl =
     (case regexp_exec r [] s of
        None \<Rightarrow> s
      | Some res \<Rightarrow>
          fst res
          @ GetSubstitution (matched res) (fst res) (rest (snd res))
              (map (caps (snd res)) [1 ..< Suc (groups r)]) repl
          @ rest (snd res))"

text \<open>
  \<^verbatim>\<open>String.prototype.split\<close> with a separator of one code unit; the empty string splits into
  one empty piece.
\<close>

fun split_on :: "nat \<Rightarrow> jsstring \<Rightarrow> jsstring list" where
  "split_on sp [] = [[]]"
| "split_on sp (c # cs) =
     (if c = sp then [] # split_on sp cs
      else (case split_on sp cs of p # ps \<Rightarrow> (c # p) # ps | [] \<Rightarrow> [[c]]))"

text \<open>A match consumes a piece of the input: it moves text from \<open>rest\<close> to \<open>seen\<close>.\<close>

lemma ms_extends:
  "y \<in> set (m ml r x) \<Longrightarrow> \<exists>w. seen y = seen x @ w \<and> rest x = w @ rest y"
  "y \<in> set (ms ml rs x) \<Longrightarrow> \<exists>w. seen y = seen x @ w \<and> rest x = w @ rest y"
proof (induction ml r x and ml rs x arbitrary: y and y rule: m_ms.induct)
  case (1 ml cl x)
  then show ?case by (auto simp: advance_def split: list.splits if_splits)
next
  case (2 ml cl lo hi g x)
  then obtain k where "y = advance k x" by auto
  then show ?case
    by (intro exI[of _ "take k (rest x)"]) (simp add: advance_def)
next
  case (3 ml n rs x)
  then show ?case by auto
next
  case (4 ml a b x)
  then show ?case by auto
next
  case (5 ml rs x)
  then show ?case by (auto split: if_splits)
next
  case (6 ml x)
  then show ?case by (auto split: if_splits)
next
  case (7 ml x)
  then show ?case by (auto split: if_splits)
next
  case (8 ml x)
  then show ?case by auto
next
  case (9 ml r rs x)
  from "9.prems" obtain z where z: "z \<in> set (m ml r x)" "y \<in> set (ms ml rs z)" by auto
  from "9.IH"(1)[OF z(1)] obtain w1 where w1: "seen z = seen x @ w1" "rest x = w1 @ rest z" by blast
  from "9.IH"(2)[OF z] obtain w2 where w2: "seen y = seen z @ w2" "rest z = w2 @ rest y" by blast
  show ?case by (rule exI[of _ "w1 @ w2"]) (simp add: w1 w2)
qed

lemma regexp_exec_shape:
  "regexp_exec r pre s = Some res \<Longrightarrow>
     \<exists>a w. fst res = pre @ a \<and> seen (snd res) = pre @ a @ w \<and> s = a @ w @ rest (snd res)"
proof (induction r pre s rule: regexp_exec.induct)
  case (1 r pre s)
  show ?case
  proof (cases "ms (multiline r) (pattern r) \<lparr>seen = pre, rest = s, caps = Map.empty\<rparr>")
    case Nil
    with "1.prems" obtain c cs where s: "s = c # cs" and e: "regexp_exec r (pre @ [c]) cs = Some res"
      by (auto simp: regexp_exec.simps[of r pre s] split: list.splits)
    from "1.IH"[OF Nil s e] obtain a w where
      "fst res = (pre @ [c]) @ a" "seen (snd res) = (pre @ [c]) @ a @ w" "cs = a @ w @ rest (snd res)"
      by blast
    then show ?thesis using s by (intro exI[of _ "c # a"] exI[of _ w]) simp
  next
    case (Cons y ys)
    with "1.prems" have res: "res = (pre, y)" by (simp add: regexp_exec.simps[of r pre s])
    have "y \<in> set (ms (multiline r) (pattern r) \<lparr>seen = pre, rest = s, caps = Map.empty\<rparr>)"
      using Cons by simp
    from ms_extends(2)[OF this] obtain w where "seen y = pre @ w" "s = w @ rest y" by auto
    then show ?thesis using res by (intro exI[of _ "[]"] exI[of _ w]) simp
  qed
qed

lemma regexp_exec_length:
  assumes "regexp_exec r pre s = Some res"
  shows "length (rest (snd res)) \<le> length s"
    and "matched res \<noteq> [] \<Longrightarrow> length (rest (snd res)) < length s"
proof -
  from regexp_exec_shape[OF assms] obtain a w where
    *: "fst res = pre @ a" "seen (snd res) = pre @ a @ w" "s = a @ w @ rest (snd res)" by blast
  show "length (rest (snd res)) \<le> length s" by (subst *(3)) simp
  have "matched res = w" by (simp add: matched_def *)
  then show "matched res \<noteq> [] \<Longrightarrow> length (rest (snd res)) < length s" by (subst *(3)) simp
qed

text \<open>
  \<^verbatim>\<open>String.prototype.match\<close> with a regular expression that has the flag \<^verbatim>\<open>g\<close>: the
  texts of all matches, found from left to right, each search starting where the last match
  ended (one further on after an empty match). The empty list stands for \<^verbatim>\<open>null\<close>.
\<close>

function match_global :: "regexp \<Rightarrow> jsstring \<Rightarrow> jsstring \<Rightarrow> jsstring list" where
  "match_global r pre s =
     (case regexp_exec r pre s of
        None \<Rightarrow> []
      | Some res \<Rightarrow>
          matched res #
          (if matched res = [] then
             (case rest (snd res) of
                [] \<Rightarrow> []
              | c # cs \<Rightarrow> match_global r (seen (snd res) @ [c]) cs)
           else match_global r (seen (snd res)) (rest (snd res))))"
  by pat_completeness auto
termination
proof (relation "measure (\<lambda>(r, pre, s). length s)", goal_cases)
  case 1
  then show ?case by simp
next
  case (2 r pre s res c cs)
  from regexp_exec_length(1)[OF 2(1)] 2(3) show ?case by simp
next
  case (3 r pre s res)
  from regexp_exec_length(2)[OF 3(1) 3(2)] show ?case by simp
qed


section \<open>The script methods of \<^verbatim>\<open>SourceMapUtil\<close>\<close>

text \<open>
  The functions of the module \<^verbatim>\<open>path\<close> that depend on the platform and on the working
  directory of the process.
\<close>

record path_module =
  sep :: nat
  relative :: "jsstring \<Rightarrow> jsstring \<Rightarrow> jsstring"
  basename :: "jsstring \<Rightarrow> jsstring"

definition appendSourceMapPaths :: "jsstring \<Rightarrow> jsstring \<Rightarrow> jsstring" where
  "appendSourceMapPaths scriptBody sourceMappingUrl =
     scriptBody @ js ''//# sourceMappingURL='' @ sourceMappingUrl"

text \<open>\<open>pathname\<close> is the field \<^verbatim>\<open>sourceMappingUrl.pathname\<close> of the argument.\<close>

definition updateScriptPaths :: "path_module \<Rightarrow> jsstring \<Rightarrow> jsstring \<Rightarrow> jsstring" where
  "updateScriptPaths pm scriptBody pathname =
     replace_regexp scriptBody SourceMapURLRegex
       (js ''//# sourceMappingURL='' @ basename pm pathname)"

definition removeSourceURL :: "jsstring \<Rightarrow> jsstring" where
  "removeSourceURL scriptBody = replace_regexp scriptBody SourceURLRegex []"

text \<open>
  \<open>None\<close> stands for \<^verbatim>\<open>null\<close> (and for the \<^verbatim>\<open>undefined\<close> of a capture that did not take
  part, which the pattern excludes).
\<close>

definition getSourceMapRelativeUrl :: "jsstring \<Rightarrow> jsstring option" where
  "getSourceMapRelativeUrl body =
     (case match_global SourceMapURLRegex [] body of
        [] \<Rightarrow> None
      | mt # mts \<Rightarrow>
          (case regexp_exec SourceMapURLRegex [] (last (mt # mts)) of
             None \<Rightarrow> None
           | Some res \<Rightarrow> caps (snd res) 2))"

section \<open>POSIX paths\<close>

text \<open>
  \<^verbatim>\<open>path.posix\<close> of Node.js, on path segments. \<open>normalize_segments\<close> is
  \<^verbatim>\<open>normalizeString\<close>: empty segments and \<^verbatim>\<open>.\<close> are dropped, \<^verbatim>\<open>..\<close> removes the segment
  before it, and is kept at the front only where the path may leave its root.
\<close>

fun join_slash :: "jsstring list \<Rightarrow> jsstring" where
  "join_slash [] = []"
| "join_slash [p] = p"
| "join_slash (p # q # ps) = p @ 47 # join_slash (q # ps)"

fun normalize_segments :: "bool \<Rightarrow> jsstring list \<Rightarrow> jsstring list \<Rightarrow> jsstring list" where
  "normalize_segments allowAboveRoot acc [] = rev acc"
| "normalize_segments allowAboveRoot acc (p # ps) =
     (if p = [] \<or> p = [46] then normalize_segments allowAboveRoot acc ps
      else if p = [46, 46] then
        (case acc of
           [] \<Rightarrow> normalize_segments allowAboveRoot (if allowAboveRoot then [[46, 46]] else []) ps
         | q # acc' \<Rightarrow>
             if q = [46, 46] then normalize_segments allowAboveRoot (if allowAboveRoot then p # acc else acc) ps
             else normalize_segments allowAboveRoot acc' ps)
      else normalize_segments allowAboveRoot (p # acc) ps)"

definition normalizeString :: "jsstring \<Rightarrow> bool \<Rightarrow> jsstring" where
  "normalizeString p allowAboveRoot = join_slash (normalize_segments allowAboveRoot [] (split_on 47 p))"

definition posix_normalize :: "jsstring \<Rightarrow> jsstring" where
  "posix_normalize p =
     (if p = [] then [46]
      else let isAbsolute = (hd p = 47);
               trailingSeparator = (last p = 47);
               q = normalizeString p (\<not> isAbsolute)
           in if q = [] then (if isAbsolute then [47] else if trailingSeparator then [46, 47] else [46])
              else (if isAbsolute then [47] else []) @ q @ (if trailingSeparator then [47] else []))"

definition posix_join :: "jsstring list \<Rightarrow> jsstring" where
  "posix_join args =
     (case filter (\<lambda>a. a \<noteq> []) args of
        [] \<Rightarrow> [46]
      | a # as \<Rightarrow> posix_normalize (join_slash (a # as)))"

text \<open>\<^verbatim>\<open>path.posix.resolve\<close> of one path, in the working directory \<open>cwd\<close>.\<close>

definition posix_resolve :: "jsstring \<Rightarrow> jsstring \<Rightarrow> jsstring" where
  "posix_resolve cwd p =
     (let r1 = (if p = [] then [] else p @ [47]);
          abs1 = (p \<noteq> [] \<and> hd p = 47);
          r2 = (if abs1 \<or> cwd = [] then r1 else cwd @ 47 # r1);
          abs2 = (if abs1 \<or> cwd = [] then abs1 else hd cwd = 47);
          q = normalizeString r2 (\<not> abs2)
      in if abs2 then 47 # q else if q = [] then [46] else q)"

fun strip_common :: "jsstring list \<Rightarrow> jsstring list \<Rightarrow> jsstring list \<times> jsstring list" where
  "strip_common (a # as) (b # bs) = (if a = b then strip_common as bs else (a # as, b # bs))"
| "strip_common as bs = (as, bs)"

text \<open>
  \<^verbatim>\<open>path.posix.relative\<close>: both paths are resolved, their common leading segments are left
  out, and each segment that remains of \<open>from\<close> becomes \<^verbatim>\<open>..\<close>.
\<close>

definition posix_relative :: "jsstring \<Rightarrow> jsstring \<Rightarrow> jsstring \<Rightarrow> jsstring" where
  "posix_relative cwd from to =
     (if from = to then []
      else let f = posix_resolve cwd from; t = posix_resolve cwd to
           in if f = t then []
              else (case strip_common (filter (\<lambda>a. a \<noteq> []) (split_on 47 f))
                                       (filter (\<lambda>a. a \<noteq> []) (split_on 47 t)) of
                      (fs, ts) \<Rightarrow> join_slash (replicate (length fs) [46, 46] @ ts)))"

text \<open>\<^verbatim>\<open>path.posix.basename\<close> without a suffix: the last segment, trailing slashes aside.\<close>

definition posix_basename :: "jsstring \<Rightarrow> jsstring" where
  "posix_basename p =
     rev (takeWhile (\<lambda>c. c \<noteq> 47) (dropWhile (\<lambda>c. c = 47) (rev p)))"

definition posix_path :: "jsstring \<Rightarrow> path_module" where
  "posix_path cwd = \<lparr>sep = 47, relative = posix_relative cwd, basename = posix_basename\<rparr>"

section \<open>The path normalizer\<close>

definition makeUnixStylePath :: "path_module \<Rightarrow> jsstring \<Rightarrow> jsstring" where
  "makeUnixStylePath pm p = posix_join (split_on (sep pm) p)"

text \<open>
  Lines 140 to 144 of \<^verbatim>\<open>updateSourceMapPath\<close>: the substitution of the packager's root. An
  argument left out is \<open>None\<close>.
\<close>

definition substitute_root ::
  "path_module \<Rightarrow> jsstring \<Rightarrow> jsstring option \<Rightarrow> jsstring option \<Rightarrow> jsstring" where
  "substitute_root pm sourcePath packagerRemoteRoot packagerLocalRoot =
     (if truthy packagerRemoteRoot \<and> truthy packagerLocalRoot then
        replace_string sourcePath
          (makeUnixStylePath pm (the packagerRemoteRoot))
          (makeUnixStylePath pm (the packagerLocalRoot))
      else sourcePath)"

definition updateSourceMapPath ::
  "path_module \<Rightarrow> jsstring \<Rightarrow> jsstring \<Rightarrow> jsstring option \<Rightarrow> jsstring option \<Rightarrow> jsstring" where
  "updateSourceMapPath pm sourcePath sourcesRootPath packagerRemoteRoot packagerLocalRoot =
     makeUnixStylePath pm
       (relative pm sourcesRootPath
          (substitute_root pm sourcePath packagerRemoteRoot packagerLocalRoot))"

section \<open>JSON documents\<close>

text \<open>
  The values \<^verbatim>\<open>JSON.parse\<close> produces. A number is kept as a decimal \<open>m * 10 ^ e\<close>, an
  object as the list of its properties in the order of their creation.
\<close>

datatype json =
    JNull
  | JBool bool
  | JNum int int
  | JStr jsstring
  | JArr "json list"
  | JObj "(jsstring \<times> json) list"

datatype exn = SyntaxError | TypeError | Thrown

text \<open>Running the next statement only if the last one did not throw.\<close>

definition and_then :: "exn + 'a \<Rightarrow> ('a \<Rightarrow> exn + 'b) \<Rightarrow> exn + 'b" where
  "and_then v f = (case v of Inl e \<Rightarrow> Inl e | Inr a \<Rightarrow> f a)"

fun js_truthy :: "json \<Rightarrow> bool" where
  "js_truthy JNull = False"
| "js_truthy (JBool b) = b"
| "js_truthy (JNum k e) = (k \<noteq> 0)"
| "js_truthy (JStr t) = (t \<noteq> [])"
| "js_truthy (JArr vs) = True"
| "js_truthy (JObj kvs) = True"

text \<open>
  Reading one of the properties \<^verbatim>\<open>sections\<close> and \<^verbatim>\<open>sources\<close> of a value: \<open>None\<close> is
  \<^verbatim>\<open>undefined\<close>, and reading a property of \<^verbatim>\<open>null\<close> throws. Arrays and primitive values have
  no property of these names.
\<close>

fun get_prop :: "json \<Rightarrow> jsstring \<Rightarrow> exn + json option" where
  "get_prop JNull k = Inl TypeError"
| "get_prop (JObj kvs) k = Inr (map_of kvs k)"
| "get_prop v k = Inr None"

fun assoc_set :: "jsstring \<Rightarrow> json \<Rightarrow> (jsstring \<times> json) list \<Rightarrow> (jsstring \<times> json) list" where
  "assoc_set k v [] = [(k, v)]"
| "assoc_set k v (p # ps) = (if fst p = k then (k, v) # ps else p # assoc_set k v ps)"

text \<open>
  An assignment \<^verbatim>\<open>v.k = w\<close> in strict mode (the compiled module is strict): it throws on
  \<^verbatim>\<open>null\<close> and on a primitive value. On an array it adds a property that is not an index,
  which \<^verbatim>\<open>JSON.stringify\<close> leaves out: the JSON value of the array is the same.
\<close>

fun set_prop :: "json \<Rightarrow> jsstring \<Rightarrow> json \<Rightarrow> exn + json" where
  "set_prop (JObj kvs) k w = Inr (JObj (assoc_set k w kvs))"
| "set_prop (JArr vs) k w = Inr (JArr vs)"
| "set_prop v k w = Inl TypeError"

text \<open>\<^verbatim>\<open>delete v.k\<close>: it throws on \<^verbatim>\<open>null\<close> only.\<close>

fun delete_prop :: "json \<Rightarrow> jsstring \<Rightarrow> exn + json" where
  "delete_prop JNull k = Inl TypeError"
| "delete_prop (JObj kvs) k = Inr (JObj (filter (\<lambda>p. fst p \<noteq> k) kvs))"
| "delete_prop v k = Inr v"

text \<open>
  What the class takes from its surroundings: the module \<^verbatim>\<open>path\<close>, \<^verbatim>\<open>JSON.parse\<close> (which
  throws a \<^verbatim>\<open>SyntaxError\<close>), \<^verbatim>\<open>JSON.stringify\<close>, the conversion of a value to a string, the
  package \<^verbatim>\<open>flatten-source-map\<close> and \<^verbatim>\<open>SourceMapsCombinator.convert\<close>; the last two may
  throw.
\<close>

record runtime =
  path :: path_module
  JSON_parse :: "jsstring \<Rightarrow> exn + json"
  JSON_stringify :: "json \<Rightarrow> jsstring"
  ToString :: "json \<Rightarrow> jsstring"
  flatten_source_map :: "json \<Rightarrow> exn + json"
  convert :: "json \<Rightarrow> exn + json"

section \<open>\<^verbatim>\<open>updateSourceMapFile\<close>\<close>

text \<open>
  The callback of \<^verbatim>\<open>sections.filter\<close>, \<^verbatim>\<open>value.map != null\<close>: it throws on a section that
  is \<^verbatim>\<open>null\<close>; an array has the method \<^verbatim>\<open>map\<close> of its prototype.
\<close>

fun has_map :: "json \<Rightarrow> exn + bool" where
  "has_map JNull = Inl TypeError"
| "has_map (JObj kvs) =
     Inr (case map_of kvs (js ''map'') of None \<Rightarrow> False | Some JNull \<Rightarrow> False | Some v \<Rightarrow> True)"
| "has_map (JArr vs) = Inr True"
| "has_map v = Inr False"

fun filter_sections :: "json list \<Rightarrow> exn + json list" where
  "filter_sections [] = Inr []"
| "filter_sections (v # vs) =
     and_then (has_map v) (\<lambda>keep.
     and_then (filter_sections vs) (\<lambda>kept. Inr (if keep then v # kept else kept)))"

text \<open>Lines 64 to 72. A value of \<^verbatim>\<open>sections\<close> that is truthy and not an array has no method
  \<^verbatim>\<open>filter\<close>.\<close>

definition flatten_sections :: "runtime \<Rightarrow> json \<Rightarrow> exn + json" where
  "flatten_sections rt sourceMap =
     and_then (get_prop sourceMap (js ''sections'')) (\<lambda>sections.
       case sections of
         None \<Rightarrow> Inr sourceMap
       | Some sv \<Rightarrow>
           if \<not> js_truthy sv then Inr sourceMap
           else (case sv of
                   JArr secs \<Rightarrow>
                     and_then (filter_sections secs) (\<lambda>kept.
                     and_then (set_prop sourceMap (js ''sections'') (JArr kept))
                       (flatten_source_map rt))
                 | _ \<Rightarrow> Inl TypeError))"

text \<open>
  The callback of \<^verbatim>\<open>sources.map\<close>. \<^verbatim>\<open>IS_REMOTE.test\<close> converts its argument to a string;
  \<^verbatim>\<open>updateSourceMapPath\<close> throws on an entry that is not a string.
\<close>

definition rewrite_source ::
  "runtime \<Rightarrow> jsstring \<Rightarrow> jsstring option \<Rightarrow> jsstring option \<Rightarrow> json \<Rightarrow> exn + json" where
  "rewrite_source rt sourcesRootPath packagerRemoteRoot packagerLocalRoot v =
     (case v of
        JStr sourcePath \<Rightarrow>
          Inr (JStr (if regexp_test IS_REMOTE sourcePath then sourcePath
                     else updateSourceMapPath (path rt) sourcePath sourcesRootPath
                            packagerRemoteRoot packagerLocalRoot))
      | _ \<Rightarrow> if regexp_test IS_REMOTE (ToString rt v) then Inr v else Inl TypeError)"

fun map_sources :: "(json \<Rightarrow> exn + json) \<Rightarrow> json list \<Rightarrow> exn + json list" where
  "map_sources f [] = Inr []"
| "map_sources f (v # vs) =
     and_then (f v) (\<lambda>w. and_then (map_sources f vs) (\<lambda>ws. Inr (w # ws)))"

text \<open>Lines 77 to 81.\<close>

definition rewrite_sources ::
  "runtime \<Rightarrow> jsstring \<Rightarrow> jsstring option \<Rightarrow> jsstring option \<Rightarrow> json \<Rightarrow> exn + json" where
  "rewrite_sources rt sourcesRootPath packagerRemoteRoot packagerLocalRoot sourceMap =
     and_then (get_prop sourceMap (js ''sources'')) (\<lambda>sources.
       case sources of
         None \<Rightarrow> Inr sourceMap
       | Some sv \<Rightarrow>
           if \<not> js_truthy sv then Inr sourceMap
           else (case sv of
                   JArr srcs \<Rightarrow>
                     and_then
                       (map_sources
                          (rewrite_source rt sourcesRootPath packagerRemoteRoot packagerLocalRoot)
                          srcs)
                       (\<lambda>srcs'. set_prop sourceMap (js ''sources'') (JArr srcs'))
                 | _ \<Rightarrow> Inl TypeError))"

text \<open>The body of the \<^verbatim>\<open>try\<close> block up to the argument of \<^verbatim>\<open>JSON.stringify\<close>.\<close>

definition rewritten_document ::
  "runtime \<Rightarrow> jsstring \<Rightarrow> jsstring \<Rightarrow> jsstring \<Rightarrow> jsstring option \<Rightarrow> jsstring option
     \<Rightarrow> exn + json" where
  "rewritten_document rt sourceMapBody scriptPath sourcesRootPath packagerRemoteRoot packagerLocalRoot =
     and_then (JSON_parse rt sourceMapBody) (\<lambda>parsed.
     and_then (flatten_sections rt parsed) (\<lambda>flat.
     and_then (convert rt flat) (\<lambda>converted.
     and_then (rewrite_sources rt sourcesRootPath packagerRemoteRoot packagerLocalRoot converted)
       (\<lambda>rewritten.
     and_then (delete_prop rewritten (js ''sourcesContent'')) (\<lambda>d1.
     and_then (set_prop d1 (js ''sourceRoot'') (JStr [])) (\<lambda>d2.
     set_prop d2 (js ''file'') (JStr scriptPath)))))))"

text \<open>The \<^verbatim>\<open>catch\<close> clause returns the argument \<^verbatim>\<open>sourceMapBody\<close>.\<close>

definition updateSourceMapFile ::
  "runtime \<Rightarrow> jsstring \<Rightarrow> jsstring \<Rightarrow> jsstring \<Rightarrow> jsstring option \<Rightarrow> jsstring option
     \<Rightarrow> jsstring" where
  "updateSourceMapFile rt sourceMapBody scriptPath sourcesRootPath packagerRemoteRoot packagerLocalRoot =
     (case rewritten_document rt sourceMapBody scriptPath sourcesRootPath
             packagerRemoteRoot packagerLocalRoot of
        Inl e \<Rightarrow> sourceMapBody
      | Inr d \<Rightarrow> JSON_stringify rt d)"

section \<open>A reference runtime\<close>

text \<open>
  \<^verbatim>\<open>JSON.parse\<close> after ECMA-404, by recursive descent. The fuel bounds the depth of the
  recursion; twice the length of the text and two is enough for every text, since every
  second call consumes a character. The value of a number is kept exactly (the rounding to
  a binary64 is left out), and a repeated key keeps its first place and its last value.
\<close>

definition skip_ws :: "jsstring \<Rightarrow> jsstring" where
  "skip_ws s = dropWhile (\<lambda>c. c = 32 \<or> c = 9 \<or> c = 10 \<or> c = 13) s"

definition hex_val :: "nat \<Rightarrow> nat option" where
  "hex_val c =
     (if 48 \<le> c \<and> c \<le> 57 then Some (c - 48)
      else if 97 \<le> c \<and> c \<le> 102 then Some (c - 87)
      else if 65 \<le> c \<and> c \<le> 70 then Some (c - 55)
      else None)"

text \<open>The characters of a string literal after its opening quote, and the text after it.\<close>

fun parse_string :: "jsstring \<Rightarrow> (jsstring \<times> jsstring) option" where
  "parse_string [] = None"
| "parse_string (c # cs) =
     (if c = 34 then Some ([], cs)
      else if c < 32 then None
      else if c \<noteq> 92 then map_option (\<lambda>(t, r). (c # t, r)) (parse_string cs)
      else (case cs of
              [] \<Rightarrow> None
            | e # es \<Rightarrow>
                if e = 117 then
                  (case es of
                     h1 # h2 # h3 # h4 # r \<Rightarrow>
                       (case (hex_val h1, hex_val h2, hex_val h3, hex_val h4) of
                          (Some a, Some b, Some c', Some d) \<Rightarrow>
                            map_option (\<lambda>(t, r'). ((4096 * a + 256 * b + 16 * c' + d) # t, r'))
                              (parse_string r)
                        | _ \<Rightarrow> None)
                   | _ \<Rightarrow> None)
                else (case map_of [(34, 34), (92, 92), (47, 47), (98, 8), (102, 12),
                                   (110, 10), (114, 13), (116, 9)] e of
                        None \<Rightarrow> None
                      | Some u \<Rightarrow> map_option (\<lambda>(t, r). (u # t, r)) (parse_string es))))"

definition digits_val :: "jsstring \<Rightarrow> nat" where
  "digits_val ds = foldl (\<lambda>a d. 10 * a + (d - 48)) 0 ds"

text \<open>The decimal \<open>m * 10 ^ e\<close> of a sign, digits and an exponent, without trailing zeros.\<close>

definition decimal :: "bool \<Rightarrow> jsstring \<Rightarrow> int \<Rightarrow> json" where
  "decimal neg ds e =
     (let z = length (takeWhile (\<lambda>d. d = 48) (rev ds));
          sig = take (length ds - z) ds
      in if sig = [] then JNum 0 0
         else JNum ((if neg then - 1 else 1) * int (digits_val sig)) (e + int z))"

definition parse_number :: "jsstring \<Rightarrow> (json \<times> jsstring) option" where
  "parse_number s =
     (let neg = (s \<noteq> [] \<and> hd s = 45);
          s1 = (if neg then tl s else s);
          ip = takeWhile is_digit s1;
          s2 = dropWhile is_digit s1;
          has_frac = (s2 \<noteq> [] \<and> hd s2 = 46);
          fp = (if has_frac then takeWhile is_digit (tl s2) else []);
          s3 = (if has_frac then dropWhile is_digit (tl s2) else s2);
          has_exp = (s3 \<noteq> [] \<and> (hd s3 = 101 \<or> hd s3 = 69));
          s4 = (if has_exp then tl s3 else s3);
          eneg = (has_exp \<and> s4 \<noteq> [] \<and> hd s4 = 45);
          s5 = (if has_exp \<and> s4 \<noteq> [] \<and> (hd s4 = 45 \<or> hd s4 = 43) then tl s4 else s4);
          ep = (if has_exp then takeWhile is_digit s5 else []);
          s6 = (if has_exp then dropWhile is_digit s5 else s3)
      in if ip = [] \<or> (length ip > 1 \<and> hd ip = 48) \<or> (has_frac \<and> fp = []) \<or> (has_exp \<and> ep = [])
         then None
         else Some (decimal neg (ip @ fp)
                      ((if eneg then - int (digits_val ep) else int (digits_val ep)) - int (length fp)),
                    s6))"

fun parse_value :: "nat \<Rightarrow> jsstring \<Rightarrow> (json \<times> jsstring) option"
and parse_elements :: "nat \<Rightarrow> jsstring \<Rightarrow> (json list \<times> jsstring) option"
and parse_members :: "nat \<Rightarrow> jsstring \<Rightarrow> ((jsstring \<times> json) list \<times> jsstring) option" where
  "parse_value 0 s = None"
| "parse_value (Suc n) s =
     (case skip_ws s of
        [] \<Rightarrow> None
      | c # cs \<Rightarrow>
          if c = 34 then map_option (\<lambda>(t, r). (JStr t, r)) (parse_string cs)
          else if c = 91 then
            (case skip_ws cs of
               [] \<Rightarrow> None
             | d # r \<Rightarrow> if d = 93 then Some (JArr [], r)
                        else map_option (\<lambda>(vs, r'). (JArr vs, r')) (parse_elements n cs))
          else if c = 123 then
            (case skip_ws cs of
               [] \<Rightarrow> None
             | d # r \<Rightarrow> if d = 125 then Some (JObj [], r)
                        else map_option (\<lambda>(kvs, r'). (JObj (foldl (\<lambda>acc (k, v). assoc_set k v acc) [] kvs), r'))
                               (parse_members n cs))
          else if prefix (js ''true'') (c # cs) then Some (JBool True, drop 4 (c # cs))
          else if prefix (js ''false'') (c # cs) then Some (JBool False, drop 5 (c # cs))
          else if prefix (js ''null'') (c # cs) then Some (JNull, drop 4 (c # cs))
          else parse_number (c # cs))"
| "parse_elements 0 s = None"
| "parse_elements (Suc n) s =
     (case parse_value n s of
        None \<Rightarrow> None
      | Some (v, r) \<Rightarrow>
          (case skip_ws r of
             [] \<Rightarrow> None
           | d # r' \<Rightarrow>
               if d = 93 then Some ([v], r')
               else if d = 44 then map_option (\<lambda>(vs, r''). (v # vs, r'')) (parse_elements n r')
               else None))"
| "parse_members 0 s = None"
| "parse_members (Suc n) s =
     (case skip_ws s of
        [] \<Rightarrow> None
      | q # s1 \<Rightarrow>
          if q \<noteq> 34 then None
          else (case parse_string s1 of
                  None \<Rightarrow> None
                | Some (k, s2) \<Rightarrow>
                    (case skip_ws s2 of
                       [] \<Rightarrow> None
                     | col # s3 \<Rightarrow>
                         if col \<noteq> 58 then None
                         else (case parse_value n s3 of
                                 None \<Rightarrow> None
                               | Some (v, r) \<Rightarrow>
                                   (case skip_ws r of
                                      [] \<Rightarrow> None
                                    | d # r' \<Rightarrow>
                                        if d = 125 then Some ([(k, v)], r')
                                        else if d = 44 then
                                          map_option (\<lambda>(kvs, r''). ((k, v) # kvs, r''))
                                            (parse_members n r')
                                        else None)))))"

definition reference_parse :: "jsstring \<Rightarrow> exn + json" where
  "reference_parse s =
     (case parse_value (2 * length s + 2) s of
        None \<Rightarrow> Inl SyntaxError
      | Some (v, r) \<Rightarrow> if skip_ws r = [] then Inr v else Inl SyntaxError)"

text \<open>
  \<^verbatim>\<open>Number::toString\<close> of the decimal \<open>m * 10 ^ e\<close> whose digits are those of the shortest
  decimal of the number (a decimal of at most 15 digits is).
\<close>

fun digits_fuel :: "nat \<Rightarrow> nat \<Rightarrow> jsstring" where
  "digits_fuel 0 k = [48 + k mod 10]"
| "digits_fuel (Suc f) k = (if k < 10 then [48 + k] else digits_fuel f (k div 10) @ [48 + k mod 10])"

definition digits_of :: "nat \<Rightarrow> jsstring" where
  "digits_of k = digits_fuel k k"

definition number_to_string :: "int \<Rightarrow> int \<Rightarrow> jsstring" where
  "number_to_string k e =
     (if k = 0 then [48]
      else let ds = digits_of (nat \<bar>k\<bar>);
               len = int (length ds);
               n = len + e;
               sign = (if k < 0 then [45] else [])
           in sign @
              (if len \<le> n \<and> n \<le> 21 then ds @ replicate (nat (n - len)) 48
               else if 0 < n \<and> n \<le> 21 then take (nat n) ds @ 46 # drop (nat n) ds
               else if - 6 < n \<and> n \<le> 0 then [48, 46] @ replicate (nat (- n)) 48 @ ds
               else (if length ds = 1 then ds else hd ds # 46 # tl ds)
                    @ 101 # (if 0 < n - 1 then [43] else [45]) @ digits_of (nat \<bar>n - 1\<bar>)))"

definition hex_digit :: "nat \<Rightarrow> nat" where
  "hex_digit d = (if d < 10 then 48 + d else 87 + d)"

text \<open>\<^verbatim>\<open>QuoteJSONString\<close>, a surrogate without its partner escaped.\<close>

fun quote_chars :: "jsstring \<Rightarrow> jsstring" where
  "quote_chars [] = []"
| "quote_chars (c # cs) =
     (if c = 34 then [92, 34] @ quote_chars cs
      else if c = 92 then [92, 92] @ quote_chars cs
      else if c = 8 then [92, 98] @ quote_chars cs
      else if c = 9 then [92, 116] @ quote_chars cs
      else if c = 10 then [92, 110] @ quote_chars cs
      else if c = 12 then [92, 102] @ quote_chars cs
      else if c = 13 then [92, 114] @ quote_chars cs
      else if c < 32 \<or> (56320 \<le> c \<and> c \<le> 57343) then
        [92, 117, hex_digit (c div 4096), hex_digit (c div 256 mod 16),
         hex_digit (c div 16 mod 16), hex_digit (c mod 16)] @ quote_chars cs
      else if 55296 \<le> c \<and> c \<le> 56319 then
        (case cs of
           d # ds \<Rightarrow>
             if 56320 \<le> d \<and> d \<le> 57343 then c # d # quote_chars ds
             else [92, 117, hex_digit (c div 4096), hex_digit (c div 256 mod 16),
                   hex_digit (c div 16 mod 16), hex_digit (c mod 16)] @ quote_chars cs
         | [] \<Rightarrow> [92, 117, hex_digit (c div 4096), hex_digit (c div 256 mod 16),
                   hex_digit (c div 16 mod 16), hex_digit (c mod 16)])
      else c # quote_chars cs)"

definition quote :: "jsstring \<Rightarrow> jsstring" where
  "quote t = 34 # quote_chars t @ [34]"

fun join_comma :: "jsstring list \<Rightarrow> jsstring" where
  "join_comma [] = []"
| "join_comma [p] = p"
| "join_comma (p # q # ps) = p @ 44 # join_comma (q # ps)"

text \<open>\<^verbatim>\<open>JSON.stringify\<close> of one argument.\<close>

fun reference_stringify :: "json \<Rightarrow> jsstring" where
  "reference_stringify JNull = js ''null''"
| "reference_stringify (JBool b) = (if b then js ''true'' else js ''false'')"
| "reference_stringify (JNum k e) = number_to_string k e"
| "reference_stringify (JStr t) = quote t"
| "reference_stringify (JArr vs) = 91 # join_comma (map reference_stringify vs) @ [93]"
| "reference_stringify (JObj kvs) =
     123 # join_comma (map (\<lambda>(k, v). quote k @ 58 # reference_stringify v) kvs) @ [125]"

text \<open>\<^verbatim>\<open>ToString\<close>: an array joins its elements, \<^verbatim>\<open>null\<close> among them as the empty string.\<close>

fun reference_ToString :: "json \<Rightarrow> jsstring" where
  "reference_ToString JNull = js ''null''"
| "reference_ToString (JBool b) = (if b then js ''true'' else js ''false'')"
| "reference_ToString (JNum k e) = number_to_string k e"
| "reference_ToString (JStr t) = t"
| "reference_ToString (JArr vs) =
     join_comma (map (\<lambda>v. if v = JNull then [] else reference_ToString v) vs)"
| "reference_ToString (JObj kvs) = js ''[object Object]''"

text \<open>
  Node.js on a POSIX system with the working directory \<open>cwd\<close>; the two collaborators are
  arguments.
\<close>

definition node_posix ::
  "jsstring \<Rightarrow> (json \<Rightarrow> exn + json) \<Rightarrow> (json \<Rightarrow> exn + json) \<Rightarrow> runtime" where
  "node_posix cwd flat conv =
     \<lparr>path = posix_path cwd, JSON_parse = reference_parse, JSON_stringify = reference_stringify,
      ToString = reference_ToString, flatten_source_map = flat, convert = conv\<rparr>"

section \<open>Facts about the matcher\<close>

lemma concat_map_concat: "concat (map f (concat xss)) = concat (map (\<lambda>xs. concat (map f xs)) xss)"
  by (induction xss) auto

lemma ms_append: "ms ml (as @ bs) x = concat (map (ms ml bs) (ms ml as x))"
proof (induction as arbitrary: x)
  case Nil
  show ?case by simp
next
  case (Cons a as)
  have "ms ml (as @ bs) = (\<lambda>y. concat (map (ms ml bs) (ms ml as y)))"
    by (rule ext) (rule Cons.IH)
  then show ?case by (simp add: concat_map_concat comp_def)
qed

lemma advance_0: "advance 0 x = x"
  by (simp add: advance_def)

lemma advance_advance: "advance j (advance k x) = advance (k + j) x"
  by (simp add: advance_def take_add add.commute[of j k])

lemma ms_Chr: "ms ml (Chr cl # rs) x =
  (case rest x of [] \<Rightarrow> [] | c # cs \<Rightarrow> if cls_match cl c then ms ml rs (advance 1 x) else [])"
  by (simp split: list.split)

lemma ms_lits: "ms ml (lits w @ rs) x =
  (if prefix w (rest x) then ms ml rs (advance (length w) x) else [])"
proof (induction w arbitrary: x)
  case Nil
  show ?case by (simp add: lits_def advance_0)
next
  case (Cons c w)
  have "ms ml (lits (c # w) @ rs) x = ms ml (Chr (Lit c) # (lits w @ rs)) x"
    by (simp add: lits_def)
  also have "\<dots> = (if prefix (c # w) (rest x) then ms ml rs (advance (length (c # w)) x) else [])"
  proof (cases "rest x")
    case Nil
    then show ?thesis by (simp add: ms_Chr)
  next
    case (Cons d ds)
    have r: "rest (advance 1 x) = ds" using Cons by (simp add: advance_def)
    have a: "advance (length w) (advance 1 x) = advance (Suc (length w)) x"
      by (simp add: advance_advance)
    show ?thesis using Cons r a
      by (simp add: ms_Chr Cons.IH del: ms.simps One_nat_def)
  qed
  finally show ?case .
qed

lemma ms_Caret: "ms ml (Caret # rs) x =
  (if seen x = [] \<or> (ml \<and> isLineTerminator (last (seen x))) then ms ml rs x else [])"
  by (cases ml) auto

lemma ms_Dollar: "ms ml [Dollar] x =
  (if rest x = [] \<or> (ml \<and> isLineTerminator (hd (rest x))) then [x] else [])"
  by (cases ml) auto


section \<open>Lines\<close>

text \<open>
  A position is at the start of a line when nothing or a line terminator is to its left, and
  at the end of a line when nothing or a line terminator is to its right. \<open>line_of s\<close> is the
  part of \<open>s\<close> up to the first line terminator, \<open>after_line s\<close> what follows it.
\<close>

definition at_line_start :: "jsstring \<Rightarrow> bool" where
  "at_line_start pre \<longleftrightarrow> pre = [] \<or> isLineTerminator (last pre)"

definition at_line_end :: "jsstring \<Rightarrow> bool" where
  "at_line_end post \<longleftrightarrow> post = [] \<or> isLineTerminator (hd post)"

definition line_of :: "jsstring \<Rightarrow> jsstring" where
  "line_of s = takeWhile (\<lambda>c. \<not> isLineTerminator c) s"

definition after_line :: "jsstring \<Rightarrow> jsstring" where
  "after_line s = dropWhile (\<lambda>c. \<not> isLineTerminator c) s"

definition no_terminator :: "jsstring \<Rightarrow> bool" where
  "no_terminator l = list_all (\<lambda>c. \<not> isLineTerminator c) l"

text \<open>
  A line of the form \<^verbatim>\<open>//[#@] ?sourceURL=<value>\<close>, as the specification writes it: one of the
  four openings, and a value of at least one character.
\<close>

definition sourceURL_heads :: "jsstring list" where
  "sourceURL_heads = [js ''//# sourceURL='', js ''//#sourceURL='', js ''//@ sourceURL='', js ''//@sourceURL='']"

definition sourceURL_line :: "jsstring \<Rightarrow> bool" where
  "sourceURL_line l = list_ex (\<lambda>h. prefix h l \<and> length h < length l) sourceURL_heads"

text \<open>\<open>h\<close> opens \<open>s\<close> and a character of the same line follows.\<close>

definition followed_by_char :: "jsstring \<Rightarrow> jsstring \<Rightarrow> bool" where
  "followed_by_char h s \<longleftrightarrow>
     prefix h s \<and> (case drop (length h) s of [] \<Rightarrow> False | c # t \<Rightarrow> \<not> isLineTerminator c)"

lemma line_of_after_line: "line_of s @ after_line s = s"
  by (simp add: line_of_def after_line_def)

lemma at_line_end_after_line: "at_line_end (after_line s)"
  unfolding at_line_end_def after_line_def
  using hd_dropWhile[of "\<lambda>c. \<not> isLineTerminator c" s] by auto

lemma line_of_whole:
  "no_terminator l \<Longrightarrow> at_line_end post \<Longrightarrow> line_of (l @ post) = l \<and> after_line (l @ post) = post"
  by (cases post)
     (auto simp: no_terminator_def at_line_end_def line_of_def after_line_def list_all_iff
           takeWhile_append dropWhile_append)

lemma no_terminator_line_of: "no_terminator (line_of s)"
  by (induction s) (auto simp: no_terminator_def line_of_def)

lemma prefix_line_of:
  "no_terminator h \<Longrightarrow>
     (prefix h (line_of s) \<and> length h < length (line_of s)) = followed_by_char h s"
proof (induction h arbitrary: s)
  case Nil
  show ?case by (cases s) (auto simp: followed_by_char_def line_of_def)
next
  case (Cons a h)
  then have h: "no_terminator h" and a: "\<not> isLineTerminator a" by (auto simp: no_terminator_def)
  show ?case
  proof (cases s)
    case Nil
    then show ?thesis by (simp add: followed_by_char_def line_of_def)
  next
    case (Cons c cs)
    show ?thesis
    proof (cases "c = a")
      case True
      have "line_of s = a # line_of cs" using Cons True a by (simp add: line_of_def)
      moreover have "followed_by_char (a # h) s = followed_by_char h cs"
        using Cons True by (simp add: followed_by_char_def)
      ultimately show ?thesis using Cons.IH[OF h, of cs] by simp
    next
      case False
      then show ?thesis using Cons by (auto simp: followed_by_char_def line_of_def)
    qed
  qed
qed

lemma sourceURL_line_of:
  "sourceURL_line (line_of s) = list_ex (\<lambda>h. followed_by_char h s) sourceURL_heads"
proof -
  have "\<forall>h\<in>set sourceURL_heads. no_terminator h"
    by (simp add: sourceURL_heads_def no_terminator_def js_def isLineTerminator_def)
  then show ?thesis
    unfolding sourceURL_line_def list_ex_iff using prefix_line_of by blast
qed

text \<open>The lines of a text: the pieces between its line terminators.\<close>

fun js_lines :: "jsstring \<Rightarrow> jsstring list" where
  "js_lines [] = [[]]"
| "js_lines (c # cs) =
     (if isLineTerminator c then [] # js_lines cs
      else (case js_lines cs of l # ls \<Rightarrow> (c # l) # ls | [] \<Rightarrow> [[c]]))"

text \<open>\<open>l\<close> is a whole line of the text \<open>pre @ l @ post\<close>.\<close>

definition whole_line :: "jsstring \<Rightarrow> jsstring \<Rightarrow> jsstring \<Rightarrow> bool" where
  "whole_line pre l post \<longleftrightarrow> at_line_start pre \<and> no_terminator l \<and> at_line_end post"

lemma js_lines_unfold:
  "js_lines s = line_of s # (case after_line s of [] \<Rightarrow> [] | c # r \<Rightarrow> js_lines r)"
  by (induction s) (auto simp: line_of_def after_line_def split: list.splits)

lemma at_line_start_snoc: "at_line_start (pre @ a) = (if a = [] then at_line_start pre else isLineTerminator (last a))"
  by (simp add: at_line_start_def)

lemma line_of_append_terminated:
  "\<exists>c\<in>set r. isLineTerminator c \<Longrightarrow> line_of (r @ x) = line_of r"
  by (simp add: line_of_def takeWhile_append1) (metis takeWhile_append1 takeWhile_eq_all_conv)

text \<open>Some line of \<open>s\<close> satisfies \<open>P\<close> iff \<open>P\<close> holds of the rest of the line at some line start.\<close>

lemma list_ex_js_lines:
  "list_ex P (js_lines s) \<longleftrightarrow> (\<exists>a b. s = a @ b \<and> at_line_start a \<and> P (line_of b))"
proof (induction s rule: length_induct)
  case (1 s)
  show ?case
  proof (cases "after_line s")
    case Nil
    then have nt: "\<forall>c\<in>set s. \<not> isLineTerminator c"
      by (simp add: after_line_def dropWhile_eq_Nil_conv)
    have "(\<exists>a b. s = a @ b \<and> at_line_start a \<and> P (line_of b)) \<longleftrightarrow> P (line_of s)"
    proof
      assume "\<exists>a b. s = a @ b \<and> at_line_start a \<and> P (line_of b)"
      then obtain a b where ab: "s = a @ b" "at_line_start a" "P (line_of b)" by blast
      with nt have "a = []" by (cases a rule: rev_cases) (auto simp: at_line_start_def)
      with ab show "P (line_of s)" by simp
    next
      assume "P (line_of s)"
      then have "s = [] @ s \<and> at_line_start [] \<and> P (line_of s)" by (simp add: at_line_start_def)
      then show "\<exists>a b. s = a @ b \<and> at_line_start a \<and> P (line_of b)" by blast
    qed
    then show ?thesis by (subst js_lines_unfold) (simp add: Nil)
  next
    case (Cons c r)
    have s: "s = line_of s @ c # r" using line_of_after_line[of s] Cons by simp
    have c: "isLineTerminator c" using at_line_end_after_line[of s] Cons by (simp add: at_line_end_def)
    have ntl: "\<forall>x\<in>set (line_of s). \<not> isLineTerminator x"
      using no_terminator_line_of[of s] by (simp add: no_terminator_def list_all_iff)
    have "length s = length (line_of s @ c # r)" using s by simp
    then have "length r < length s" by simp
    with 1 have IH: "list_ex P (js_lines r) \<longleftrightarrow> (\<exists>a b. r = a @ b \<and> at_line_start a \<and> P (line_of b))"
      by blast
    have "(\<exists>a b. s = a @ b \<and> at_line_start a \<and> P (line_of b)) \<longleftrightarrow>
          P (line_of s) \<or> (\<exists>a b. r = a @ b \<and> at_line_start a \<and> P (line_of b))"
    proof
      assume "\<exists>a b. s = a @ b \<and> at_line_start a \<and> P (line_of b)"
      then obtain a b where ab: "s = a @ b" "at_line_start a" "P (line_of b)" by blast
      show "P (line_of s) \<or> (\<exists>a b. r = a @ b \<and> at_line_start a \<and> P (line_of b))"
      proof (cases "a = []")
        case True
        with ab show ?thesis by simp
      next
        case False
        with ab(2) have la: "isLineTerminator (last a)" by (simp add: at_line_start_def)
        have "\<not> length a \<le> length (line_of s)"
        proof
          assume "length a \<le> length (line_of s)"
          with ab(1) s have "prefix a (line_of s)"
            by (metis append_eq_append_conv_if prefixI take_is_prefix)
          then have "set a \<subseteq> set (line_of s)" by (auto simp: prefix_def)
          with False la ntl show False using last_in_set by blast
        qed
        then have "length (line_of s @ [c]) \<le> length a" by simp
        with ab(1) s obtain a' where a': "a = (line_of s @ [c]) @ a'"
          by (metis append.assoc append_Cons append_Nil append_eq_append_conv_if append_take_drop_id)
        from ab(1) a' have "s = line_of s @ c # (a' @ b)" by simp
        with s have "line_of s @ c # r = line_of s @ c # (a' @ b)" by metis
        then have r: "r = a' @ b" by simp
        have "at_line_start a'"
          using la a' by (cases "a' = []") (simp_all add: at_line_start_def)
        with r ab(3) show ?thesis by blast
      qed
    next
      assume "P (line_of s) \<or> (\<exists>a b. r = a @ b \<and> at_line_start a \<and> P (line_of b))"
      then show "\<exists>a b. s = a @ b \<and> at_line_start a \<and> P (line_of b)"
      proof
        assume "P (line_of s)"
        then have "s = [] @ s \<and> at_line_start [] \<and> P (line_of s)" by (simp add: at_line_start_def)
        then show ?thesis by blast
      next
        assume "\<exists>a b. r = a @ b \<and> at_line_start a \<and> P (line_of b)"
        then obtain a b where ab: "r = a @ b" "at_line_start a" "P (line_of b)" by blast
        have "s = (line_of s @ c # a) @ b" using s ab(1) by simp
        moreover have "at_line_start (line_of s @ c # a)"
          using ab(2) c by (cases "a = []") (simp_all add: at_line_start_def)
        ultimately show ?thesis using ab(3) by blast
      qed
    qed
    then show ?thesis using IH by (subst js_lines_unfold) (simp add: Cons)
  qed
qed

section \<open>A greedy group to the end of the line\<close>

lemma ms_Rep: "ms ml (Rep cl lo hi g # rs) x =
  concat (map (\<lambda>k. ms ml rs (advance k x)) (rep_counts cl lo hi g (rest x)))"
  by (simp add: comp_def)

lemma rep_counts_opt:
  "rep_counts cl 0 (Some (Suc 0)) True s =
     (case s of [] \<Rightarrow> [0] | c # t \<Rightarrow> if cls_match cl c then [Suc 0, 0] else [0])"
  by (cases s) (auto simp: rep_counts_def Let_def upt_rec)

lemma ms_single: "ms ml [r] x = m ml r x"
proof -
  have "ms ml [] = (\<lambda>y. [y])" by (rule ext) simp
  then show ?thesis by simp
qed

lemma cls_match_Dot: "cls_match Dot = (\<lambda>c. \<not> isLineTerminator c)"
  by (rule ext) simp

lemma rep_counts_greedy_plus:
  "rep_counts Dot (Suc 0) None True s =
     (if line_of s = [] then [] else length (line_of s) # rev [Suc 0 ..< length (line_of s)])"
  by (cases "line_of s") (auto simp: rep_counts_def Let_def cls_match_Dot line_of_def)

lemma advance_line:
  "seen (advance (length (line_of (rest x))) x) = seen x @ line_of (rest x)"
  "rest (advance (length (line_of (rest x))) x) = after_line (rest x)"
  "caps (advance k x) = caps x"
  by (simp_all add: advance_def line_of_def after_line_def
        takeWhile_eq_take[symmetric] dropWhile_eq_drop[symmetric])

lemma ms_line_group_none:
  "line_of (rest x) = [] \<Longrightarrow> ms True [Grp n [Rep Dot 1 None True], Dollar] x = []"
  by (simp add: rep_counts_greedy_plus)

lemma ms_line_group_some:
  assumes "line_of (rest x) \<noteq> []"
  shows "\<exists>ys. ms True [Grp n [Rep Dot 1 None True], Dollar] x =
     \<lparr>seen = seen x @ line_of (rest x), rest = after_line (rest x),
      caps = (caps x)(n \<mapsto> line_of (rest x))\<rparr> # ys"
proof -
  let ?G = "Grp n [Rep Dot 1 None True]"
  let ?y = "advance (length (line_of (rest x))) x"
  let ?z = "?y\<lparr>caps := (caps ?y)(n \<mapsto> drop (length (seen x)) (seen ?y))\<rparr>"
  have z: "?z = \<lparr>seen = seen x @ line_of (rest x), rest = after_line (rest x),
      caps = (caps x)(n \<mapsto> line_of (rest x))\<rparr>"
    by (simp add: advance_line)
  have d: "ms True [Dollar] ?z = [?z]"
    using at_line_end_after_line[of "rest x"]
    by (simp add: ms_Dollar advance_line at_line_end_def del: ms.simps)
  obtain zs where mg: "m True ?G x = ?z # zs"
    using assms by (simp add: ms_single rep_counts_greedy_plus del: ms.simps)
  have e: "ms True [?G, Dollar] x = concat (map (ms True [Dollar]) (m True ?G x))"
    by (rule ms.simps(2))
  have "ms True [?G, Dollar] x = ms True [Dollar] ?z @ concat (map (ms True [Dollar]) zs)"
    unfolding e mg by (simp only: list.map concat.simps)
  with d z show ?thesis by (simp del: m.simps ms.simps)
qed

section \<open>The comment \<^verbatim>\<open>sourceURL\<close>\<close>

text \<open>The matches of the pattern from \<^verbatim>\<open>sourceURL=\<close> on.\<close>

definition tail_R3 :: "jsstring \<Rightarrow> (nat \<Rightarrow> jsstring option) \<Rightarrow> jsstring \<Rightarrow> mstate list" where
  "tail_R3 p cp u = (if prefix (js ''sourceURL='') u
     then ms True [Grp (Suc 0) [Rep Dot (Suc 0) None True], Dollar]
            \<lparr>seen = p @ take (length (js ''sourceURL='')) u,
             rest = drop (length (js ''sourceURL='')) u, caps = cp\<rparr>
     else [])"

lemma ms_tail_R3:
  "ms True (lits (js ''sourceURL='') @ [Grp (Suc 0) [Rep Dot (Suc 0) None True], Dollar])
      \<lparr>seen = p, rest = u, caps = cp\<rparr> = tail_R3 p cp u"
proof (cases "prefix (js ''sourceURL='') u")
  case True
  then show ?thesis
    by (simp add: ms_lits tail_R3_def advance_def del: ms.simps m.simps)
next
  case False
  then show ?thesis by (simp add: ms_lits tail_R3_def del: ms.simps m.simps)
qed

lemma R3_nf:
  "ms True (pattern SourceURLRegex) \<lparr>seen = pre, rest = s, caps = cp\<rparr> =
     (if at_line_start pre then
        (case s of
           a # b # c # v \<Rightarrow>
             if a = 47 \<and> b = 47 \<and> (c = 35 \<or> c = 64) then
               (case v of
                  [] \<Rightarrow> []
                | d # w \<Rightarrow> (if d = 32 then tail_R3 (pre @ [a, b, c, d]) cp w else [])
                             @ tail_R3 (pre @ [a, b, c]) cp v)
             else []
         | _ \<Rightarrow> [])
      else [])"
  by (auto simp: SourceURLRegex_def ms_Caret ms_lits ms_Chr ms_Rep rep_counts_opt ms_tail_R3
        js_def advance_def at_line_start_def tail_R3_def
      simp del: ms.simps m.simps split: list.splits)

lemma followed_by_char_Cons:
  "followed_by_char (a # h) s = (case s of [] \<Rightarrow> False | b # t \<Rightarrow> a = b \<and> followed_by_char h t)"
  by (cases s) (auto simp: followed_by_char_def)

lemma followed_by_char_Nil:
  "followed_by_char [] s = (line_of s \<noteq> [])"
  by (cases s) (auto simp: followed_by_char_def line_of_def)

lemma followed_line:
  assumes "followed_by_char h u" and "no_terminator h"
  shows "line_of u = h @ line_of (drop (length h) u)"
    and "after_line u = after_line (drop (length h) u)"
    and "line_of (drop (length h) u) \<noteq> []"
    and "take (length h) u = h"
proof -
  from assms(1) obtain v where u: "u = h @ v" by (auto simp: followed_by_char_def prefix_def)
  have nt: "\<forall>c\<in>set h. \<not> isLineTerminator c" using assms(2) by (simp add: no_terminator_def list_all_iff)
  show "line_of u = h @ line_of (drop (length h) u)"
    using nt by (simp add: u line_of_def takeWhile_append)
  show "after_line u = after_line (drop (length h) u)"
    using nt by (simp add: u after_line_def dropWhile_append)
  show "line_of (drop (length h) u) \<noteq> []"
    using assms(1) by (auto simp: followed_by_char_def line_of_def split: list.splits)
  show "take (length h) u = h" by (simp add: u)
qed

lemma no_terminator_sourceURL: "no_terminator (js ''sourceURL='')"
  by (simp add: no_terminator_def js_def isLineTerminator_def)

lemma tail_R3_none: "\<not> followed_by_char (js ''sourceURL='') u \<Longrightarrow> tail_R3 p cp u = []"
proof -
  assume a: "\<not> followed_by_char (js ''sourceURL='') u"
  show ?thesis
  proof (cases "prefix (js ''sourceURL='') u")
    case True
    with a have "line_of (drop (length (js ''sourceURL='')) u) = []"
      by (auto simp: followed_by_char_def line_of_def split: list.splits)
    with True show ?thesis
      using ms_line_group_none[of "\<lparr>seen = p @ take (length (js ''sourceURL='')) u,
             rest = drop (length (js ''sourceURL='')) u, caps = cp\<rparr>" "Suc 0"]
      by (simp add: tail_R3_def del: ms.simps m.simps)
  next
    case False
    then show ?thesis by (simp add: tail_R3_def)
  qed
qed

lemma tail_R3_some:
  assumes "followed_by_char (js ''sourceURL='') u"
  shows "\<exists>c' ys. tail_R3 p cp u = \<lparr>seen = p @ line_of u, rest = after_line u, caps = c'\<rparr> # ys"
proof -
  note fl = followed_line[OF assms no_terminator_sourceURL]
  have pf: "prefix (js ''sourceURL='') u" using assms by (simp add: followed_by_char_def)
  from ms_line_group_some[of "\<lparr>seen = p @ take (length (js ''sourceURL='')) u,
             rest = drop (length (js ''sourceURL='')) u, caps = cp\<rparr>" "Suc 0"] fl(3)
  obtain ys where "ms True [Grp (Suc 0) [Rep Dot 1 None True], Dollar]
      \<lparr>seen = p @ take (length (js ''sourceURL='')) u,
             rest = drop (length (js ''sourceURL='')) u, caps = cp\<rparr>
     = \<lparr>seen = (p @ take (length (js ''sourceURL='')) u) @ line_of (drop (length (js ''sourceURL='')) u),
        rest = after_line (drop (length (js ''sourceURL='')) u),
        caps = cp(Suc 0 \<mapsto> line_of (drop (length (js ''sourceURL='')) u))\<rparr> # ys"
    by (auto simp del: ms.simps m.simps)
  then show ?thesis using pf fl
    by (simp add: tail_R3_def del: ms.simps m.simps)
qed

lemma sourceURL_line_cases:
  "sourceURL_line (line_of s) \<longleftrightarrow>
     (case s of
        a # b # c # v \<Rightarrow>
          a = 47 \<and> b = 47 \<and> (c = 35 \<or> c = 64) \<and>
          ((case v of [] \<Rightarrow> False | d # w \<Rightarrow> d = 32 \<and> followed_by_char (js ''sourceURL='') w)
            \<or> followed_by_char (js ''sourceURL='') v)
      | _ \<Rightarrow> False)"
proof -
  have heads: "sourceURL_heads =
      [[47, 47, 35, 32] @ js ''sourceURL='', [47, 47, 35] @ js ''sourceURL='',
       [47, 47, 64, 32] @ js ''sourceURL='', [47, 47, 64] @ js ''sourceURL='']"
    by (simp add: sourceURL_heads_def js_def)
  show ?thesis
    unfolding sourceURL_line_of heads
    by (auto simp: followed_by_char_Cons split: list.splits)
qed

lemma line_of_Cons: "\<not> isLineTerminator c \<Longrightarrow> line_of (c # s) = c # line_of s"
  by (simp add: line_of_def)

lemma after_line_Cons: "\<not> isLineTerminator c \<Longrightarrow> after_line (c # s) = after_line s"
  by (simp add: after_line_def)

lemma not_terminator_marks:
  "\<not> isLineTerminator 47" "\<not> isLineTerminator 35" "\<not> isLineTerminator 64" "\<not> isLineTerminator 32"
  by (simp_all add: isLineTerminator_def)

lemma R3_no_match:
  assumes "\<not> (at_line_start pre \<and> sourceURL_line (line_of s))"
  shows "ms True (pattern SourceURLRegex) \<lparr>seen = pre, rest = s, caps = cp\<rparr> = []"
  using assms unfolding R3_nf sourceURL_line_cases
  by (auto split: list.splits simp: tail_R3_none)

lemma R3_match:
  assumes "at_line_start pre" and "sourceURL_line (line_of s)"
  shows "\<exists>y ys. ms True (pattern SourceURLRegex) \<lparr>seen = pre, rest = s, caps = cp\<rparr> = y # ys
            \<and> seen y = pre @ line_of s \<and> rest y = after_line s"
proof -
  from assms(2) obtain c v where s: "s = 47 # 47 # c # v" and c: "c = 35 \<or> c = 64"
    and alt: "(\<exists>w. v = 32 # w \<and> followed_by_char (js ''sourceURL='') w)
              \<or> followed_by_char (js ''sourceURL='') v"
    unfolding sourceURL_line_cases by (auto split: list.splits)
  have ntc: "\<not> isLineTerminator c" using c not_terminator_marks by auto
  have ls: "line_of s = 47 # 47 # c # line_of v" "after_line s = after_line v"
    using ntc by (simp_all add: s line_of_Cons after_line_Cons not_terminator_marks)
  from alt obtain d w where v: "v = d # w"
    by (cases v) (auto simp: followed_by_char_def js_def)
  show ?thesis
  proof (cases "d = 32 \<and> followed_by_char (js ''sourceURL='') w")
    case True
    from tail_R3_some[of w "pre @ [47, 47, c, d]" cp] True
    obtain c' ys where t: "tail_R3 (pre @ [47, 47, c, d]) cp w
        = \<lparr>seen = (pre @ [47, 47, c, d]) @ line_of w, rest = after_line w, caps = c'\<rparr> # ys"
      by blast
    have lv: "line_of v = 32 # line_of w" "after_line v = after_line w"
      using True v by (simp_all add: line_of_Cons after_line_Cons not_terminator_marks)
    show ?thesis
      using assms(1) c True t unfolding R3_nf s v
      by (auto simp: ls lv s v line_of_Cons after_line_Cons not_terminator_marks)
  next
    case False
    with alt v have fv: "followed_by_char (js ''sourceURL='') v" by auto
    have first: "(if d = 32 then tail_R3 (pre @ [47, 47, c, d]) cp w else []) = []"
      using False by (auto simp: tail_R3_none)
    from tail_R3_some[OF fv, of "pre @ [47, 47, c]" cp]
    obtain c' ys where t: "tail_R3 (pre @ [47, 47, c]) cp v
        = \<lparr>seen = (pre @ [47, 47, c]) @ line_of v, rest = after_line v, caps = c'\<rparr> # ys"
      by blast
    show ?thesis
      using assms(1) c first t unfolding R3_nf s v
      by (auto simp: line_of_Cons after_line_Cons not_terminator_marks)
  qed
qed

lemma multiline_R3: "multiline SourceURLRegex = True"
  by (simp add: SourceURLRegex_def)

lemma exec_R3_None:
  "(\<forall>a b. s = a @ b \<longrightarrow> \<not> (at_line_start (pre @ a) \<and> sourceURL_line (line_of b)))
     \<Longrightarrow> regexp_exec SourceURLRegex pre s = None"
proof (induction s arbitrary: pre)
  case Nil
  then have "\<not> (at_line_start pre \<and> sourceURL_line (line_of []))" by simp
  from R3_no_match[OF this] show ?case
    by (subst regexp_exec.simps) (simp add: multiline_R3 del: ms.simps m.simps)
next
  case (Cons c cs)
  from Cons.prems have "\<not> (at_line_start (pre @ []) \<and> sourceURL_line (line_of (c # cs)))"
    by blast
  then have here: "ms True (pattern SourceURLRegex) \<lparr>seen = pre, rest = c # cs, caps = Map.empty\<rparr> = []"
    using R3_no_match by simp
  have "\<forall>a b. cs = a @ b \<longrightarrow> \<not> (at_line_start ((pre @ [c]) @ a) \<and> sourceURL_line (line_of b))"
  proof (intro allI impI)
    fix a b assume "cs = a @ b"
    then have "c # cs = (c # a) @ b" by simp
    with Cons.prems have "\<not> (at_line_start (pre @ c # a) \<and> sourceURL_line (line_of b))" by blast
    then show "\<not> (at_line_start ((pre @ [c]) @ a) \<and> sourceURL_line (line_of b))" by simp
  qed
  from Cons.IH[OF this] here show ?case
    by (subst regexp_exec.simps) (simp add: multiline_R3 del: ms.simps m.simps)
qed

lemma exec_R3_Some:
  "s = a @ b \<Longrightarrow> at_line_start (pre @ a) \<Longrightarrow> sourceURL_line (line_of b) \<Longrightarrow>
   (\<forall>a' b'. s = a' @ b' \<and> length a' < length a \<longrightarrow>
       \<not> (at_line_start (pre @ a') \<and> sourceURL_line (line_of b'))) \<Longrightarrow>
   \<exists>y. regexp_exec SourceURLRegex pre s = Some (pre @ a, y)
       \<and> seen y = pre @ a @ line_of b \<and> rest y = after_line b"
proof (induction a arbitrary: pre s)
  case Nil
  from R3_match[of pre s Map.empty] Nil obtain y ys where
    "ms True (pattern SourceURLRegex) \<lparr>seen = pre, rest = s, caps = Map.empty\<rparr> = y # ys"
    "seen y = pre @ line_of s" "rest y = after_line s" by auto
  then show ?case using Nil(1)
    by (subst regexp_exec.simps) (simp add: multiline_R3 del: ms.simps m.simps)
next
  case (Cons c a)
  have s: "s = c # (a @ b)" using Cons.prems(1) by simp
  have "\<not> (at_line_start (pre @ []) \<and> sourceURL_line (line_of s))"
    using Cons.prems(4)[rule_format, of "[]" s] by simp
  then have here: "ms True (pattern SourceURLRegex) \<lparr>seen = pre, rest = s, caps = Map.empty\<rparr> = []"
    using R3_no_match by simp
  have min: "\<forall>a' b'. a @ b = a' @ b' \<and> length a' < length a \<longrightarrow>
       \<not> (at_line_start ((pre @ [c]) @ a') \<and> sourceURL_line (line_of b'))"
  proof (intro allI impI)
    fix a' b' assume "a @ b = a' @ b' \<and> length a' < length a"
    then have "s = (c # a') @ b' \<and> length (c # a') < length (c # a)" using s by simp
    with Cons.prems(4) have "\<not> (at_line_start (pre @ c # a') \<and> sourceURL_line (line_of b'))" by blast
    then show "\<not> (at_line_start ((pre @ [c]) @ a') \<and> sourceURL_line (line_of b'))" by simp
  qed
  have "at_line_start ((pre @ [c]) @ a)" using Cons.prems(2) by simp
  from Cons.IH[OF refl this Cons.prems(3) min]
  obtain y where "regexp_exec SourceURLRegex (pre @ [c]) (a @ b) = Some ((pre @ [c]) @ a, y)"
    "seen y = (pre @ [c]) @ a @ line_of b" "rest y = after_line b" by blast
  then show ?case using here s
    by (subst regexp_exec.simps) (simp add: multiline_R3 del: ms.simps m.simps)
qed

lemma GetSubstitution_empty: "GetSubstitution mt bf af cs [] = []"
  by simp

lemma removeSourceURL_None:
  assumes "\<not> list_ex sourceURL_line (js_lines body)"
  shows "removeSourceURL body = body"
proof -
  from assms have "\<forall>a b. body = a @ b \<longrightarrow> \<not> (at_line_start ([] @ a) \<and> sourceURL_line (line_of b))"
    unfolding list_ex_js_lines by simp
  from exec_R3_None[OF this] show ?thesis
    by (simp add: removeSourceURL_def replace_regexp_def)
qed

lemma removeSourceURL_Some:
  assumes body: "body = pre @ l @ post" and wl: "whole_line pre l post"
    and l: "sourceURL_line l" and first: "\<not> list_ex sourceURL_line (js_lines pre)"
  shows "removeSourceURL body = pre @ post"
proof -
  from wl have lo: "line_of (l @ post) = l" "after_line (l @ post) = post"
    using line_of_whole by (simp_all add: whole_line_def)
  have min: "\<forall>a' b'. body = a' @ b' \<and> length a' < length pre \<longrightarrow>
       \<not> (at_line_start ([] @ a') \<and> sourceURL_line (line_of b'))"
  proof (intro allI impI notI)
    fix a' b'
    assume h: "body = a' @ b' \<and> length a' < length pre"
      and m: "at_line_start ([] @ a') \<and> sourceURL_line (line_of b')"
    have "take (length a') (a' @ b') = take (length a') (pre @ l @ post)"
      using h body by simp
    then have t: "a' = take (length a') pre" using h by simp
    define r where "r = drop (length a') pre"
    have r1: "pre = a' @ r" unfolding r_def by (subst t) simp
    have r2: "r \<noteq> []" using h by (simp add: r_def)
    have "a' @ b' = a' @ r @ l @ post" using h body r1 by simp
    then have r3: "b' = r @ l @ post" by simp
    note r = r1 r2 r3
    from wl r have "isLineTerminator (last r)" by (simp add: whole_line_def at_line_start_def)
    then have "\<exists>c\<in>set r. isLineTerminator c" using r(2) last_in_set by blast
    then have "line_of b' = line_of r" using r(3) line_of_append_terminated by simp
    with m r(1) have "\<exists>a b. pre = a @ b \<and> at_line_start a \<and> sourceURL_line (line_of b)"
      by auto
    with first show False unfolding list_ex_js_lines by blast
  qed
  have "at_line_start ([] @ pre)" using wl by (simp add: whole_line_def)
  from exec_R3_Some[OF _ this _ min, of "l @ post"] body l lo
  obtain y where "regexp_exec SourceURLRegex [] body = Some (pre, y)" "rest y = post"
    by auto
  then show ?thesis
    by (simp add: removeSourceURL_def replace_regexp_def)
qed

text \<open>
  C8. \<^verbatim>\<open>removeSourceURL\<close> removes the text of the first line of the form
  \<^verbatim>\<open>//[#@] ?sourceURL=<value>\<close> (its line terminator stays) and changes nothing else; a body
  without such a line is returned unchanged.
\<close>

theorem removeSourceURL_first_line:
  "(\<not> list_ex sourceURL_line (js_lines body) \<longrightarrow> removeSourceURL body = body)
   \<and> (\<forall>pre l post.
         body = pre @ l @ post \<and> whole_line pre l post \<and> sourceURL_line l
           \<and> \<not> list_ex sourceURL_line (js_lines pre)
         \<longrightarrow> removeSourceURL body = pre @ post)"
  using removeSourceURL_None removeSourceURL_Some by blast

theorem removeSourceURL_first_line_witness:
  "whole_line (js ''var a;\<newline>'')
      (js ''//# sourceURL=http://localhost:8081/index.bundle?platform=android'') (js ''\<newline>var b;'')
   \<and> sourceURL_line (js ''//# sourceURL=http://localhost:8081/index.bundle?platform=android'')
   \<and> \<not> list_ex sourceURL_line (js_lines (js ''var a;\<newline>''))
   \<and> removeSourceURL
        (js ''var a;\<newline>//# sourceURL=http://localhost:8081/index.bundle?platform=android\<newline>var b;'')
       = js ''var a;\<newline>\<newline>var b;''
   \<and> \<not> list_ex sourceURL_line (js_lines (js ''var a; // sourceURL=x''))
   \<and> removeSourceURL (js ''var a; // sourceURL=x'') = js ''var a; // sourceURL=x''"
proof -
  have w: "whole_line (js ''var a;\<newline>'')
      (js ''//# sourceURL=http://localhost:8081/index.bundle?platform=android'') (js ''\<newline>var b;'')"
    by (simp add: whole_line_def at_line_start_def at_line_end_def no_terminator_def js_def
          isLineTerminator_def)
  have l: "sourceURL_line (js ''//# sourceURL=http://localhost:8081/index.bundle?platform=android'')"
    by (simp add: sourceURL_line_def sourceURL_heads_def js_def)
  have f: "\<not> list_ex sourceURL_line (js_lines (js ''var a;\<newline>''))"
    by (simp add: sourceURL_line_def sourceURL_heads_def js_def isLineTerminator_def)
  have n: "\<not> list_ex sourceURL_line (js_lines (js ''var a; // sourceURL=x''))"
    by (simp add: sourceURL_line_def sourceURL_heads_def js_def isLineTerminator_def)
  have b: "js ''var a;\<newline>//# sourceURL=http://localhost:8081/index.bundle?platform=android\<newline>var b;''
      = js ''var a;\<newline>'' @ js ''//# sourceURL=http://localhost:8081/index.bundle?platform=android''
        @ js ''\<newline>var b;''"
    by (simp add: js_def)
  have r: "js ''var a;\<newline>'' @ js ''\<newline>var b;'' = js ''var a;\<newline>\<newline>var b;''"
    by (simp add: js_def)
  from removeSourceURL_first_line[of "js ''var a; // sourceURL=x''"] n
  have 1: "removeSourceURL (js ''var a; // sourceURL=x'') = js ''var a; // sourceURL=x''"
    by blast
  from removeSourceURL_first_line[of
      "js ''var a;\<newline>//# sourceURL=http://localhost:8081/index.bundle?platform=android\<newline>var b;''"]
    b w l f
  have 2: "removeSourceURL
        (js ''var a;\<newline>//# sourceURL=http://localhost:8081/index.bundle?platform=android\<newline>var b;'')
       = js ''var a;\<newline>'' @ js ''\<newline>var b;''"
    by blast
  from w l f n 1 2 r show ?thesis by simp
qed

section \<open>Facts about the document operations\<close>




lemma and_then_Inl: "and_then (Inl e) f = Inl e"
  by (simp add: and_then_def)

lemma and_then_Inr: "and_then (Inr a) f = f a"
  by (simp add: and_then_def)


lemma makeUnixStylePath_empty: "makeUnixStylePath pm [] = js ''.''"
  by (simp add: makeUnixStylePath_def posix_join_def js_def)

section \<open>The rewrite operation\<close>

text \<open>
  C1. When \<^verbatim>\<open>JSON.parse\<close> throws on the text of the map, \<^verbatim>\<open>updateSourceMapFile\<close> returns
  that text unchanged, whatever its other arguments are. The function of the model is total:
  every exception of the \<^verbatim>\<open>try\<close> block is a value \<open>Inl\<close> that the \<^verbatim>\<open>catch\<close> clause turns
  into the text.
\<close>

theorem updateSourceMapFile_parse_failure:
  assumes "JSON_parse rt sourceMapBody = Inl e"
  shows "updateSourceMapFile rt sourceMapBody scriptPath sourcesRootPath
           packagerRemoteRoot packagerLocalRoot = sourceMapBody"
  using assms by (simp add: updateSourceMapFile_def rewritten_document_def and_then_Inl)

theorem updateSourceMapFile_parse_failure_witness:
  "JSON_parse (node_posix (js ''/home/u'') Inr Inr) (js ''{\"sources\": [\"a.js\"'')
     = Inl SyntaxError
   \<and> updateSourceMapFile (node_posix (js ''/home/u'') Inr Inr) (js ''{\"sources\": [\"a.js\"'')
         (js ''index.bundle'') (js ''/proj'') None None = js ''{\"sources\": [\"a.js\"''"
proof -
  have p: "JSON_parse (node_posix (js ''/home/u'') Inr Inr) (js ''{\"sources\": [\"a.js\"'')
             = Inl SyntaxError"
    by code_simp
  from updateSourceMapFile_parse_failure[OF p] p show ?thesis by simp
qed

text \<open>
  The pattern the specification gives for a remote source, \<^verbatim>\<open>^[A-Za-z]{2,}://\<close>, to compare
  with \<open>IS_REMOTE\<close>.
\<close>

definition REMOTE_SCHEME_spec :: regexp where
  "REMOTE_SCHEME_spec =
     \<lparr>pattern = [Caret, Rep (Ranges [(65, 90), (97, 122)]) 2 None True] @ lits (js ''://''),
      groups = 0, multiline = False\<rparr>"

text \<open>
  C3. An entry of \<^verbatim>\<open>sources\<close> is left as it is if and only if it starts with two or more
  ASCII letters and \<^verbatim>\<open>://\<close>. The range \<^verbatim>\<open>A-z\<close> of \<open>IS_REMOTE\<close> also holds the six characters
  between \<^verbatim>\<open>Z\<close> and \<^verbatim>\<open>a\<close>: the entry \<^verbatim>\<open>__://x\<close> has no letter before \<^verbatim>\<open>://\<close>, and is
  left as it is.
\<close>

theorem IS_REMOTE_accepts_underscores:
  "regexp_test REMOTE_SCHEME_spec (js ''__://x'') = False
   \<and> regexp_test IS_REMOTE (js ''__://x'') = True
   \<and> rewrite_source rt sourcesRootPath packagerRemoteRoot packagerLocalRoot (JStr (js ''__://x''))
       = Inr (JStr (js ''__://x''))"
proof -
  have a: "regexp_test REMOTE_SCHEME_spec (js ''__://x'') = False" by code_simp
  have b: "regexp_test IS_REMOTE (js ''__://x'') = True" by code_simp
  show ?thesis using a b by (simp add: rewrite_source_def)
qed




section \<open>The substitution of the packager's root\<close>



lemma GetSubstitution_no_dollar:
  "36 \<notin> set t \<Longrightarrow> GetSubstitution mt bf af cs t = t"
  by (induction mt bf af cs t rule: GetSubstitution.induct) auto











section \<open>The path normalizer on the root itself\<close>

text \<open>
  C10. Without both packager roots, a source path equal to the sources root normalizes to
  \<^verbatim>\<open>.\<close>: \<^verbatim>\<open>path.relative\<close> of a path and itself is the empty string, which splits into one
  empty piece, and \<^verbatim>\<open>path.posix.join\<close> of empty pieces is \<^verbatim>\<open>.\<close>.
\<close>

theorem updateSourceMapPath_root_itself:
  assumes "\<not> (truthy packagerRemoteRoot \<and> truthy packagerLocalRoot)"
    and "relative pm sourcesRootPath sourcesRootPath = []"
  shows "updateSourceMapPath pm sourcesRootPath sourcesRootPath packagerRemoteRoot packagerLocalRoot
           = js ''.''"
  using assms by (auto simp: updateSourceMapPath_def substitute_root_def makeUnixStylePath_empty)

theorem updateSourceMapPath_root_itself_witness:
  "\<not> (truthy None \<and> truthy None)
   \<and> relative (posix_path (js ''/home/u'')) (js ''/proj/src'') (js ''/proj/src'') = []
   \<and> updateSourceMapPath (posix_path (js ''/home/u'')) (js ''/proj/src'') (js ''/proj/src'') None None
       = js ''.''"
proof -
  have t: "\<not> (truthy None \<and> truthy None)" by (simp add: truthy_def)
  have r: "relative (posix_path (js ''/home/u'')) (js ''/proj/src'') (js ''/proj/src'') = []"
    by (simp add: posix_path_def posix_relative_def)
  from updateSourceMapPath_root_itself[OF t r] t r show ?thesis by simp
qed

end
